theory Spec2Isabelle
  imports Main
begin

section \<open>The Accelerate view of the dashboard (AccelerateView.vue)\<close>

subsection \<open>Model records\<close>

text \<open>
  Modelled from the spec: the type \<open>Model\<close> exported by the module \<open>@/core/models\<close>, whose
  declaration is outside this file. The fields are the ones the spec lists and the view
  reads; \<open>tags\<close> is an array (the view calls \<open>forEach\<close>, \<open>indexOf\<close> and \<open>map\<close> on it), so
  order and repetitions are kept.
\<close>

record Model =
  name :: string
  huggingface_id :: string
  huggingface_url :: string
  tags :: "string list"
  example_image_url :: string

subsection \<open>The tags filter predicate\<close>

text \<open>
  \<open>Array.prototype.indexOf\<close>: the index of the first element strictly equal to the
  argument, or \<open>-1\<close> when there is none.
\<close>

fun indexOf :: "'a list \<Rightarrow> 'a \<Rightarrow> int" where
  "indexOf [] v = - 1"
| "indexOf (x # xs) v =
     (if x = v then 0
      else (let i = indexOf xs v in if i = - 1 then - 1 else i + 1))"

text \<open>JavaScript truthiness of an integer number: every number but \<open>0\<close> is truthy.\<close>

definition truthy :: "int \<Rightarrow> bool" where
  "truthy n = (n \<noteq> 0)"

text \<open>
  \<open>FilterOptionValue\<close> is \<open>string | number\<close>. The values the tags column offers are the tag
  strings built by \<open>tagsFilterOptions\<close>, on which \<open>toString\<close> is the identity.
\<close>

type_synonym FilterOptionValue = string

definition toString :: "FilterOptionValue \<Rightarrow> string" where
  "toString v = v"

definition tagsFilter :: "FilterOptionValue \<Rightarrow> Model \<Rightarrow> bool" where
  "tagsFilter v row = (if truthy (indexOf (tags row) (toString v)) then False else True)"

subsection \<open>Filter options and object identity\<close>

text \<open>
  A \<open>FilterOption\<close> object literal \<open>{ label: tag, value: tag }\<close>. Every evaluation of an
  object literal allocates a new object, and \<open>Array.prototype.includes\<close> compares objects
  by reference, so the array \<open>tags\<close> of \<open>tagsFilterOptions\<close> holds addresses into an
  explicit store. The store is a list: the object at address \<open>a\<close> is its \<open>a\<close>-th entry, and an
  allocation appends.
\<close>

record FilterOption =
  label :: string
  opt_value :: FilterOptionValue

type_synonym addr = nat
type_synonym store = "FilterOption list"

definition alloc :: "FilterOption \<Rightarrow> store \<Rightarrow> addr \<times> store" where
  "alloc obj h = (length h, h @ [obj])"

definition includes_ref :: "addr list \<Rightarrow> addr \<Rightarrow> bool" where
  "includes_ref arr a = (a \<in> set arr)"

text \<open>
  The body of the inner \<open>forEach\<close>: the argument of \<open>includes\<close> is one object literal, the
  argument of \<open>push\<close> another.
\<close>

definition pushTag :: "string \<Rightarrow> addr list \<times> store \<Rightarrow> addr list \<times> store" where
  "pushTag tag st =
     (case st of (arr, h) \<Rightarrow>
        (case alloc \<lparr>label = tag, opt_value = tag\<rparr> h of (probe, h1) \<Rightarrow>
           if \<not> includes_ref arr probe
           then (case alloc \<lparr>label = tag, opt_value = tag\<rparr> h1 of (a, h2) \<Rightarrow> (arr @ [a], h2))
           else (arr, h1)))"

text \<open>The two nested \<open>forEach\<close> loops, started on an array \<open>arr\<close> in a store \<open>h\<close>.\<close>

definition collectTags :: "Model list \<Rightarrow> addr list \<times> store \<Rightarrow> addr list \<times> store" where
  "collectTags models st = fold (\<lambda>model. fold pushTag (tags model)) models st"

text \<open>
  \<open>tagsFilterOptions\<close> reads the imported array \<open>modelData\<close>, which is a parameter here. The
  result is the array \<open>tags\<close>, read through the store.
\<close>

definition tagsFilterOptions :: "Model list \<Rightarrow> FilterOption list" where
  "tagsFilterOptions modelData =
     (case collectTags modelData ([], []) of (arr, h) \<Rightarrow> map (\<lambda>a. h ! a) arr)"

subsection \<open>Virtual nodes, column descriptors and handlers\<close>

datatype component =
  NButton | NCard | NDataTable | NDropdown | NIcon | NImage | NInput | NSpace | NStep
| NSteps | NTag | Home | Menu

text \<open>The reactive reference a \<open>v-model\<close> directive is bound to.\<close>

datatype ref = CustomModel

text \<open>
  What a handler of this file does when it is called: \<open>console.log\<close> with its arguments,
  \<open>window.open\<close> with a URL and a target, or the assignment a \<open>v-model\<close> makes.
\<close>

datatype effect =
  ConsoleLog "string list"
| WindowOpen string string
| Assign ref string

text \<open>The \<open>filter\<close> entry of a column: the string \<open>"default"\<close> or a predicate.\<close>

datatype column_filter =
  FilterDefault
| FilterFn "FilterOptionValue \<Rightarrow> Model \<Rightarrow> bool"

text \<open>
  \<open>h(component, props, slots)\<close> builds a node from a component, an object of properties
  (kept in the order written) and the content of its default slot; a slot that returns a
  string gives a text node. A property value is a string, a number, a boolean,
  \<open>undefined\<close>, an arrow function without parameters (the effects of its body), the
  reference of a \<open>v-model\<close>, or one of the bound objects: the column descriptors, the data
  rows, a plain object, the options of a dropdown.
\<close>

datatype vnode =
  H component "(string \<times> propval) list" "vnode list"
| Text string
and propval =
  PStr string
| PNum int
| PBool bool
| PUndefined
| PHandler "effect list"
| PRef ref
| PColumns "column list"
| PData "Model list"
| PObj "(string \<times> propval) list"
| POptions "dropdown_option list"
and dropdown_option =
  DropdownOption (opt_label: string) (opt_key: string) (opt_icon: vnode)
    (opt_props: "(string \<times> propval) list")
and column =
  Column (col_title: string) (col_key: string) (col_sorter: "string option")
    (col_filterOptions: "FilterOption list option") (col_filter: "column_filter option")
    (col_width: "int option") (col_render: "(Model \<Rightarrow> vnode) option")

subsection \<open>The script: renderers and column descriptors\<close>

text \<open>
  \<open>tagColor\<close> is an object imported from \<open>@/core/models\<close>; it is a parameter: the function
  that gives, for a key, the value \<open>tagColor[key]\<close> (\<open>PUndefined\<close> for a key it lacks).
\<close>

definition getTagColor :: "(string \<Rightarrow> propval) \<Rightarrow> string \<Rightarrow> propval" where
  "getTagColor tagColor tag = tagColor tag"

text \<open>
  \<open>renderIcon\<close> returns a function without parameters; the model gives the node that
  function returns. The default of \<open>size\<close> is \<open>"medium"\<close>.
\<close>

definition renderIcon :: "component \<Rightarrow> string option \<Rightarrow> vnode" where
  "renderIcon icon sz =
     H NIcon [(''size'', PStr (case sz of None \<Rightarrow> ''medium'' | Some s \<Rightarrow> s))]
       [H icon [] []]"

definition getPluginOptions :: "Model \<Rightarrow> dropdown_option list" where
  "getPluginOptions row =
     [DropdownOption ''Hugging Face'' ''github'' (renderIcon Home None)
        [(''onClick'', PHandler [WindowOpen (huggingface_url row) ''_blank''])]]"

definition createColumns2 :: "Model list \<Rightarrow> (string \<Rightarrow> propval) \<Rightarrow> column list" where
  "createColumns2 modelData tagColor =
     [Column ''Name'' ''name'' (Some ''default'') None None None None,
      Column ''Repository'' ''huggingface_id'' (Some ''default'') None None None None,
      Column ''Tags'' ''tags'' None (Some (tagsFilterOptions modelData))
        (Some (FilterFn tagsFilter)) None
        (Some (\<lambda>row.
           H NSpace []
             (map (\<lambda>tag.
                     H NTag [(''bordered'', PBool True), (''type'', getTagColor tagColor tag)]
                       [Text tag])
                (tags row)))),
      Column ''Example'' ''example'' None None None None
        (Some (\<lambda>row.
           H NSpace [(''justify'', PStr ''center'')]
             [H NImage
                [(''src'', PStr (example_image_url row)), (''height'', PNum 64),
                 (''fit'', PStr ''cover''), (''lazy'', PBool True)]
                []])),
      Column ''Acceelerate'' ''accelerate'' None None None None
        (Some (\<lambda>row.
           H NButton
             [(''type'', PStr ''primary''), (''secondary'', PBool True),
              (''round'', PBool True), (''block'', PBool True), (''bordered'', PBool False),
              (''onClick'', PHandler [ConsoleLog [''Accelerate'', name row]])]
             [Text ''Accelerate''])),
      Column '''' ''menu'' None None (Some FilterDefault) (Some 60)
        (Some (\<lambda>row.
           H NDropdown
             [(''trigger'', PStr ''hover''), (''options'', POptions (getPluginOptions row))]
             [renderIcon Menu None]))]"

subsection \<open>The state of the component\<close>

record pagination_obj =
  pageSize :: int

text \<open>
  The reactive state of the component, the imported array, and what the handlers reach
  outside the component: the lines written by \<open>console.log\<close> and the calls of
  \<open>window.open\<close>, both in the order made.
\<close>

record view_state =
  customModel :: string
  columnsRef :: "column list"
  modelData :: "Model list"
  pagination :: pagination_obj
  console :: "string list list"
  opened :: "(string \<times> string) list"

text \<open>
  \<open>reactive(modelData)\<close> is a proxy of the imported array itself: a read of \<open>dataRef\<close> reads
  \<open>modelData\<close>.
\<close>

definition dataRef :: "view_state \<Rightarrow> Model list" where
  "dataRef s = modelData s"

text \<open>The script's top level, run once when the component is set up.\<close>

definition script_setup :: "Model list \<Rightarrow> (string \<Rightarrow> propval) \<Rightarrow> view_state" where
  "script_setup md tagColor =
     \<lparr>customModel = '''', columnsRef = createColumns2 md tagColor, modelData = md,
      pagination = \<lparr>pageSize = 10\<rparr>, console = [], opened = []\<rparr>"

subsection \<open>The template\<close>

definition custom_model_input :: vnode where
  "custom_model_input =
     H NInput
       [(''v-model:value'', PRef CustomModel), (''placeholder'', PStr ''Custom model''),
        (''style'', PStr ''width: 350px'')]
       []"

definition install_button :: vnode where
  "install_button =
     H NButton
       [(''type'', PStr ''primary''), (''bordered'', PBool True), (''secondary'', PBool True),
        (''style'', PStr ''margin-right: 24px'')]
       [Text ''Install'']"

definition install_bar :: vnode where
  "install_bar =
     H NSpace
       [(''justify'', PStr ''end''), (''inline'', PBool True), (''align'', PStr ''center''),
        (''class'', PStr ''install'')]
       [custom_model_input, install_button]"

definition progress_steps :: vnode where
  "progress_steps =
     H NSteps [(''current'', PNum 1)]
       [H NStep
          [(''title'', PStr ''Start''),
           (''description'',
            PStr ''Start the acceleration process by clicking the button next to the model'')]
          [],
        H NStep
          [(''title'', PStr ''Convert to ONNX''),
           (''description'', PStr ''This process might take a while'')]
          [],
        H NStep
          [(''title'', PStr ''Convert to TensorRT''),
           (''description'', PStr ''This process might take a while'')]
          [],
        H NStep
          [(''title'', PStr ''Package and cleanup''),
           (''description'', PStr ''This process might take a while'')]
          []]"

definition progress_card :: vnode where
  "progress_card =
     H NCard [(''title'', PStr ''Acceleration progress'')]
       [H NSpace [(''vertical'', PBool True), (''justify'', PStr ''center'')] [progress_steps]]"

definition data_table :: "view_state \<Rightarrow> vnode" where
  "data_table s =
     H NDataTable
       [(''columns'', PColumns (columnsRef s)), (''data'', PData (dataRef s)),
        (''pagination'', PObj [(''pageSize'', PNum (pageSize (pagination s)))]),
        (''bordered'', PBool True), (''remote'', PBool True),
        (''style'', PStr ''padding-bottom: 24px'')]
       []"

definition table_card :: "view_state \<Rightarrow> vnode" where
  "table_card s = H NCard [] [data_table s]"

definition template :: "view_state \<Rightarrow> vnode list" where
  "template s = [install_bar, progress_card, table_card s]"

subsection \<open>Reading nodes\<close>

definition props :: "vnode \<Rightarrow> (string \<times> propval) list" where
  "props v = (case v of H c ps cs \<Rightarrow> ps | Text t \<Rightarrow> [])"

definition children :: "vnode \<Rightarrow> vnode list" where
  "children v = (case v of H c ps cs \<Rightarrow> cs | Text t \<Rightarrow> [])"

definition get_prop :: "vnode \<Rightarrow> string \<Rightarrow> propval option" where
  "get_prop v k = map_of (props v) k"

text \<open>All nodes of a component in a tree, in document order.\<close>

fun nodes_of :: "component \<Rightarrow> vnode \<Rightarrow> vnode list" where
  "nodes_of c (H c' ps cs) =
     (if c' = c then [H c' ps cs] else []) @ concat (map (nodes_of c) cs)"
| "nodes_of c (Text t) = []"

text \<open>
  The node a column's own \<open>render\<close> gives for a row, for the first column with the key;
  \<open>None\<close> when no column has the key or the column has no \<open>render\<close>.
\<close>

definition custom_cell :: "column list \<Rightarrow> string \<Rightarrow> Model \<Rightarrow> vnode option" where
  "custom_cell cols k row =
     (case find (\<lambda>c. col_key c = k) cols of
        None \<Rightarrow> None
      | Some c \<Rightarrow> (case col_render c of None \<Rightarrow> None | Some f \<Rightarrow> Some (f row)))"

subsection \<open>Handlers and user actions\<close>

definition perform :: "effect \<Rightarrow> view_state \<Rightarrow> view_state" where
  "perform e s =
     (case e of
        ConsoleLog args \<Rightarrow> s\<lparr>console := console s @ [args]\<rparr>
      | WindowOpen url target \<Rightarrow> s\<lparr>opened := opened s @ [(url, target)]\<rparr>
      | Assign r v \<Rightarrow> (case r of CustomModel \<Rightarrow> s\<lparr>customModel := v\<rparr>))"

definition perform_all :: "effect list \<Rightarrow> view_state \<Rightarrow> view_state" where
  "perform_all es s = fold perform es s"

text \<open>
  What calling the handler bound under a property name does; nothing when no handler is
  bound under that name.
\<close>

definition handler_effects :: "(string \<times> propval) list \<Rightarrow> string \<Rightarrow> effect list" where
  "handler_effects ps k = (case map_of ps k of Some (PHandler es) \<Rightarrow> es | _ \<Rightarrow> [])"

text \<open>
  \<open>v-model:value="r"\<close> makes the input write the typed text to \<open>r\<close>; an input without the
  directive writes nothing.
\<close>

definition input_effects :: "(string \<times> propval) list \<Rightarrow> string \<Rightarrow> effect list" where
  "input_effects ps txt =
     (case map_of ps ''v-model:value'' of Some (PRef r) \<Rightarrow> [Assign r txt] | _ \<Rightarrow> [])"

text \<open>
  The user's actions in the view: typing into the input, a click on Install, a click on
  the Accelerate button of a row, opening the dropdown of a row, a click on the dropdown
  option of a row with a key, and a change of the table's sorter, filters or page, for
  which the table emits an update under a handler name.
\<close>

datatype event =
  TypeCustomModel string
| ClickInstall
| ClickAccelerate Model
| OpenDropdown Model
| ClickOption Model string
| TableUpdate string

definition option_effects :: "vnode \<Rightarrow> string \<Rightarrow> effect list" where
  "option_effects menu k =
     (case get_prop menu ''options'' of
        Some (POptions os) \<Rightarrow>
          (case find (\<lambda>opt. opt_key opt = k) os of
             None \<Rightarrow> []
           | Some opt \<Rightarrow> handler_effects (opt_props opt) ''onClick'' @
                        handler_effects (props menu) ''onSelect'')
      | _ \<Rightarrow> [])"

definition event_effects :: "view_state \<Rightarrow> event \<Rightarrow> effect list" where
  "event_effects s e =
     (case e of
        TypeCustomModel txt \<Rightarrow> input_effects (props custom_model_input) txt
      | ClickInstall \<Rightarrow> handler_effects (props install_button) ''onClick''
      | ClickAccelerate row \<Rightarrow>
          (case custom_cell (columnsRef s) ''accelerate'' row of
             None \<Rightarrow> []
           | Some b \<Rightarrow> handler_effects (props b) ''onClick'')
      | OpenDropdown row \<Rightarrow>
          (case custom_cell (columnsRef s) ''menu'' row of
             None \<Rightarrow> []
           | Some m \<Rightarrow> handler_effects (props m) ''onUpdate:show'')
      | ClickOption row k \<Rightarrow>
          (case custom_cell (columnsRef s) ''menu'' row of
             None \<Rightarrow> []
           | Some m \<Rightarrow> option_effects m k)
      | TableUpdate k \<Rightarrow> handler_effects (props (data_table s)) k)"

definition step :: "event \<Rightarrow> view_state \<Rightarrow> view_state" where
  "step e s = perform_all (event_effects s e) s"

definition run :: "event list \<Rightarrow> view_state \<Rightarrow> view_state" where
  "run es s = fold step es s"

subsection \<open>The rows the table shows\<close>

text \<open>
  The table widget is the toolkit's. Its \<open>remote\<close> property says who sorts, filters and
  pages: with \<open>remote\<close> set the widget shows the rows of \<open>data\<close> as they are passed and only
  emits updates, otherwise it applies its own processing, \<open>client\<close> here, to the columns and
  the rows.
\<close>

definition table_rows :: "(column list \<Rightarrow> Model list \<Rightarrow> Model list) \<Rightarrow> vnode \<Rightarrow> Model list" where
  "table_rows client t =
     (case get_prop t ''data'' of
        Some (PData rows) \<Rightarrow>
          (case get_prop t ''remote'' of
             Some (PBool True) \<Rightarrow> rows
           | _ \<Rightarrow>
               (case get_prop t ''columns'' of
                  Some (PColumns cols) \<Rightarrow> client cols rows
                | _ \<Rightarrow> client [] rows))
      | _ \<Rightarrow> [])"

subsection \<open>Two example rows\<close>

definition row_a :: Model where
  "row_a =
     \<lparr>name = ''Alpha'', huggingface_id = ''org/alpha'',
      huggingface_url = ''https://huggingface.co/org/alpha'',
      tags = [''anime'', ''diffusion''],
      example_image_url = ''https://example.org/alpha.png''\<rparr>"

definition row_b :: Model where
  "row_b =
     \<lparr>name = ''Beta'', huggingface_id = ''org/beta'',
      huggingface_url = ''https://huggingface.co/org/beta'',
      tags = [''diffusion''],
      example_image_url = ''https://example.org/beta.png''\<rparr>"

subsection \<open>The imported array, the records and the component in one store\<close>

text \<open>
  To say what the file writes, the objects it can reach are put in one store: the model
  records, the arrays of object references (the imported \<open>modelData\<close>, and the array \<open>tags\<close>
  that \<open>tagsFilterOptions\<close> builds), the filter option objects and the \<open>ref\<close> that holds
  \<open>customModel\<close>. An address is an index into the store; an allocation appends a cell, and
  \<open>push\<close> and the assignment to a \<open>ref\<close> overwrite the cell at an address. The \<open>tags\<close> array
  of a record is a part of the record's cell.
\<close>

datatype cell =
  ModelCell Model
| ArrayCell "addr list"
| OptionCell FilterOption
| RefCell string

type_synonym heap = "cell list"

definition new_cell :: "cell \<Rightarrow> heap \<Rightarrow> addr \<times> heap" where
  "new_cell c h = (length h, h @ [c])"

text \<open>Reads; an address that holds no cell of the kind read gives nothing.\<close>

definition array_at :: "heap \<Rightarrow> addr \<Rightarrow> addr list" where
  "array_at h a =
     (if a < length h then (case h ! a of ArrayCell rs \<Rightarrow> rs | _ \<Rightarrow> []) else [])"

definition model_at :: "heap \<Rightarrow> addr \<Rightarrow> Model option" where
  "model_at h a =
     (if a < length h then (case h ! a of ModelCell m \<Rightarrow> Some m | _ \<Rightarrow> None) else None)"

definition option_at :: "heap \<Rightarrow> addr \<Rightarrow> FilterOption option" where
  "option_at h a =
     (if a < length h then (case h ! a of OptionCell opt \<Rightarrow> Some opt | _ \<Rightarrow> None) else None)"

definition string_at :: "heap \<Rightarrow> addr \<Rightarrow> string" where
  "string_at h a =
     (if a < length h then (case h ! a of RefCell v \<Rightarrow> v | _ \<Rightarrow> '''') else '''')"

definition tags_at :: "heap \<Rightarrow> addr \<Rightarrow> string list" where
  "tags_at h a = (case model_at h a of None \<Rightarrow> [] | Some m \<Rightarrow> tags m)"

text \<open>The records an array of references holds, and the options one holds, in order.\<close>

definition models_at :: "heap \<Rightarrow> addr \<Rightarrow> Model list" where
  "models_at h a = List.map_filter (model_at h) (array_at h a)"

definition options_at :: "heap \<Rightarrow> addr \<Rightarrow> FilterOption list" where
  "options_at h a = List.map_filter (option_at h) (array_at h a)"

text \<open>Writes: \<open>arr.push(r)\<close> on an array of references, and \<open>ref.value = v\<close>.\<close>

definition push_ref :: "addr \<Rightarrow> addr \<Rightarrow> heap \<Rightarrow> heap" where
  "push_ref arr r h =
     (if arr < length h
      then (case h ! arr of ArrayCell rs \<Rightarrow> h[arr := ArrayCell (rs @ [r])] | _ \<Rightarrow> h)
      else h)"

definition assign_ref :: "addr \<Rightarrow> string \<Rightarrow> heap \<Rightarrow> heap" where
  "assign_ref a v h = h[a := RefCell v]"

text \<open>
  \<open>Array.prototype.forEach\<close>: the length is read once, when the call starts; the element
  at each index below it is read from the store when its turn comes, and an index the array
  no longer has is skipped. \<open>arr\<close> reads the array from the store.
\<close>

definition forEach :: "(heap \<Rightarrow> 'a list) \<Rightarrow> ('a \<Rightarrow> heap \<Rightarrow> heap) \<Rightarrow> heap \<Rightarrow> heap" where
  "forEach arr f h =
     fold (\<lambda>k h'. if k < length (arr h') then f (arr h' ! k) h' else h')
       [0..<length (arr h)] h"

text \<open>
  \<open>tagsFilterOptions\<close> on the store, with \<open>modelData\<close> at the address \<open>md\<close>: the array
  \<open>tags\<close> is allocated, each tag of each model allocates the object \<open>includes\<close> is asked
  about and, when that is not in \<open>tags\<close>, the object that is pushed. The result is the
  address of \<open>tags\<close>.
\<close>

definition pushTag_in :: "addr \<Rightarrow> string \<Rightarrow> heap \<Rightarrow> heap" where
  "pushTag_in tagsA tag h =
     (case new_cell (OptionCell \<lparr>label = tag, opt_value = tag\<rparr>) h of (probe, h1) \<Rightarrow>
        if \<not> includes_ref (array_at h1 tagsA) probe
        then (case new_cell (OptionCell \<lparr>label = tag, opt_value = tag\<rparr>) h1 of
                (a, h2) \<Rightarrow> push_ref tagsA a h2)
        else h1)"

definition tagsFilterOptions_in :: "addr \<Rightarrow> heap \<Rightarrow> addr \<times> heap" where
  "tagsFilterOptions_in md h =
     (case new_cell (ArrayCell []) h of (tagsA, h0) \<Rightarrow>
        (tagsA,
         forEach (\<lambda>h'. array_at h' md)
           (\<lambda>model. forEach (\<lambda>h'. tags_at h' model) (pushTag_in tagsA)) h0))"

text \<open>
  \<open>tagsFilter\<close> and a column's \<open>render\<close> on a row of the store: both read the row and write
  nothing, so the store they return is the one they were given.
\<close>

definition tagsFilter_in :: "FilterOptionValue \<Rightarrow> addr \<Rightarrow> heap \<Rightarrow> bool option \<times> heap" where
  "tagsFilter_in v r h = (map_option (tagsFilter v) (model_at h r), h)"

definition render_in :: "column list \<Rightarrow> string \<Rightarrow> addr \<Rightarrow> heap \<Rightarrow> vnode option \<times> heap" where
  "render_in cols k r h =
     (case model_at h r of None \<Rightarrow> None | Some row \<Rightarrow> custom_cell cols k row, h)"

text \<open>
  The component on the store: the store, the addresses of \<open>modelData\<close> and of the
  \<open>customModel\<close> ref, the column descriptors, the pagination object, and the console lines
  and opened windows.
\<close>

record mounted =
  cells :: heap
  modelData_addr :: addr
  customModel_addr :: addr
  columns :: "column list"
  page :: pagination_obj
  logged :: "string list list"
  windows :: "(string \<times> string) list"

text \<open>
  The script's top level on a store \<open>h\<close> that holds the imported array at \<open>md\<close>:
  \<open>ref("")\<close> allocates the cell of \<open>customModel\<close>, then \<open>createColumns2()\<close> runs
  \<open>tagsFilterOptions\<close>; \<open>dataRef\<close> is a proxy of the array at \<open>md\<close>. The column
  descriptors are values: they are \<open>createColumns2\<close> of the records the array holds, whose
  filter options are the ones the loops leave in the store.
\<close>

definition mount :: "addr \<Rightarrow> (string \<Rightarrow> propval) \<Rightarrow> heap \<Rightarrow> mounted" where
  "mount md tagColor h =
     (case new_cell (RefCell '''') h of (cm, h1) \<Rightarrow>
        (case tagsFilterOptions_in md h1 of (tagsA, h2) \<Rightarrow>
           \<lparr>cells = h2, modelData_addr = md, customModel_addr = cm,
            columns = createColumns2 (models_at h1 md) tagColor,
            page = \<lparr>pageSize = 10\<rparr>, logged = [], windows = []\<rparr>))"

text \<open>The state of the component as a mounted component on the store shows it.\<close>

definition view_of :: "mounted \<Rightarrow> view_state" where
  "view_of m =
     \<lparr>customModel = string_at (cells m) (customModel_addr m), columnsRef = columns m,
      modelData = models_at (cells m) (modelData_addr m), pagination = page m,
      console = logged m, opened = windows m\<rparr>"

definition perform_in :: "effect \<Rightarrow> mounted \<Rightarrow> mounted" where
  "perform_in e m =
     (case e of
        ConsoleLog args \<Rightarrow> m\<lparr>logged := logged m @ [args]\<rparr>
      | WindowOpen url target \<Rightarrow> m\<lparr>windows := windows m @ [(url, target)]\<rparr>
      | Assign r v \<Rightarrow>
          (case r of CustomModel \<Rightarrow> m\<lparr>cells := assign_ref (customModel_addr m) v (cells m)\<rparr>))"

text \<open>
  The operations of the file: building the columns, the tags filter on a row, a column's
  \<open>render\<close> on a row, and the user's actions, whose handlers are the ones the nodes carry.
\<close>

datatype operation =
  BuildColumns
| ApplyTagsFilter FilterOptionValue addr
| RenderCell string addr
| Act event

definition exec :: "(string \<Rightarrow> propval) \<Rightarrow> operation \<Rightarrow> mounted \<Rightarrow> mounted" where
  "exec tagColor op m =
     (case op of
        BuildColumns \<Rightarrow>
          m\<lparr>cells := snd (tagsFilterOptions_in (modelData_addr m) (cells m)),
            columns := createColumns2 (models_at (cells m) (modelData_addr m)) tagColor\<rparr>
      | ApplyTagsFilter v r \<Rightarrow> m\<lparr>cells := snd (tagsFilter_in v r (cells m))\<rparr>
      | RenderCell k r \<Rightarrow> m\<lparr>cells := snd (render_in (columns m) k r (cells m))\<rparr>
      | Act e \<Rightarrow> fold perform_in (event_effects (view_of m) e) m)"

definition exec_all :: "(string \<Rightarrow> propval) \<Rightarrow> operation list \<Rightarrow> mounted \<Rightarrow> mounted" where
  "exec_all tagColor ops m = fold (exec tagColor) ops m"

text \<open>
  A store holds the import when \<open>md\<close> is the address of an array cell and every element of
  that array is the address of a model record.
\<close>

definition imported :: "heap \<Rightarrow> addr \<Rightarrow> bool" where
  "imported h md =
     (md < length h \<and> (case h ! md of ArrayCell rs \<Rightarrow> True | _ \<Rightarrow> False) \<and>
      list_all (\<lambda>r. model_at h r \<noteq> None) (array_at h md))"

text \<open>An example store: the two example rows and the array of both.\<close>

definition example_heap :: heap where
  "example_heap = [ModelCell row_a, ModelCell row_b, ArrayCell [0, 1]]"

text \<open>
  The invariant of the loops of \<open>tagsFilterOptions\<close> started on a store \<open>h\<close>: the store
  \<open>h'\<close> reached still begins with \<open>h\<close>, the array \<open>tags\<close> is the cell right after \<open>h\<close>, and it
  holds addresses of later cells, which are the options \<open>os\<close>.
\<close>

definition collecting :: "heap \<Rightarrow> FilterOption list \<Rightarrow> heap \<Rightarrow> bool" where
  "collecting h os h' =
     (length h < length h' \<and> take (length h) h' = h \<and>
      (case h' ! length h of
         ArrayCell arr \<Rightarrow>
           list_all (\<lambda>a. length h < a \<and> a < length h') arr \<and>
           map (option_at h') arr = map Some os
       | _ \<Rightarrow> False))"

text \<open>The address holds a \<open>ref\<close> cell.\<close>

definition holds_ref :: "heap \<Rightarrow> addr \<Rightarrow> bool" where
  "holds_ref h a = (a < length h \<and> (case h ! a of RefCell v \<Rightarrow> True | _ \<Rightarrow> False))"

text \<open>The option object the loop body builds for a tag.\<close>

definition tagOption :: "string \<Rightarrow> FilterOption" where
  "tagOption tag = \<lparr>label = tag, opt_value = tag\<rparr>"

section \<open>Properties\<close>

subsection \<open>The tags filter\<close>

lemma indexOf_ge: "- 1 \<le> indexOf xs v"
  by (induction xs) (auto simp: Let_def)

lemma indexOf_zero_iff: "indexOf xs v = 0 \<longleftrightarrow> (\<exists>ys. xs = v # ys)"
proof (cases xs)
  case Nil
  then show ?thesis by simp
next
  case (Cons x ys)
  have "- 1 \<le> indexOf ys v" by (rule indexOf_ge)
  then have "indexOf ys v + 1 \<noteq> 0 \<or> indexOf ys v = - 1" by arith
  with Cons show ?thesis by (auto simp: Let_def)
qed

lemma indexOf_absent_iff: "indexOf xs v = - 1 \<longleftrightarrow> v \<notin> set xs"
proof (induction xs)
  case Nil
  then show ?case by simp
next
  case (Cons x xs)
  have "- 1 \<le> indexOf xs v" by (rule indexOf_ge)
  with Cons show ?case by (auto simp: Let_def)
qed

text \<open>
  What the predicate computes: \<open>indexOf\<close> is falsy only when it is \<open>0\<close>, so a row passes
  exactly when the value is its first tag.
\<close>

lemma tagsFilter_first_tag_only: "tagsFilter v row \<longleftrightarrow> (\<exists>ts. tags row = v # ts)"
  by (simp add: tagsFilter_def truthy_def toString_def indexOf_zero_iff)

text \<open>
  C1. The claim: for every row and every selected tag value, \<open>tagsFilter\<close> returns true if
  and only if the value is an element of \<open>row.tags\<close>. The code at a row whose tags are
  \<open>["anime", "diffusion"]\<close> and the value \<open>"diffusion"\<close>: the row carries the tag, at index
  \<open>1\<close>, which is truthy, and the predicate returns false.
\<close>

theorem tagsFilter_rejects_second_tag:
  "''diffusion'' \<in> set (tags row_a) \<and> indexOf (tags row_a) ''diffusion'' = 1 \<and>
   tagsFilter ''diffusion'' row_a = False"
  by (simp add: row_a_def tagsFilter_def truthy_def toString_def)

subsection \<open>The filter options\<close>

text \<open>
  An address in the array is below the size of the store, and an allocation returns the
  size of the store: the probe object is never in the array, and the tag is pushed.
\<close>

lemma pushTag_pushes:
  assumes "\<forall>a\<in>set arr. a < length h"
  shows "pushTag tag (arr, h) = (arr @ [Suc (length h)], h @ [tagOption tag, tagOption tag])"
proof -
  have "length h \<notin> set arr" using assms by auto
  then show ?thesis
    by (simp add: pushTag_def alloc_def includes_ref_def tagOption_def)
qed

lemma fold_pushTag:
  assumes "\<forall>a\<in>set arr. a < length h"
  shows "\<exists>arr' h'. fold pushTag ts (arr, h) = (arr', h') \<and> (\<forall>a\<in>set arr'. a < length h') \<and>
           map ((!) h') arr' = map ((!) h) arr @ map tagOption ts"
  using assms
proof (induction ts arbitrary: arr h)
  case Nil
  then show ?case by simp
next
  case (Cons t ts)
  let ?arr = "arr @ [Suc (length h)]" and ?h = "h @ [tagOption t, tagOption t]"
  have inv: "\<forall>a\<in>set ?arr. a < length ?h" using Cons.prems by auto
  from Cons.IH [OF inv] obtain arr' h' where
    f: "fold pushTag ts (?arr, ?h) = (arr', h')" and
    i: "\<forall>a\<in>set arr'. a < length h'" and
    m: "map ((!) h') arr' = map ((!) ?h) ?arr @ map tagOption ts"
    by blast
  have old: "map ((!) ?h) arr = map ((!) h) arr"
    using Cons.prems by (simp add: nth_append)
  have "map ((!) ?h) ?arr = map ((!) h) arr @ [tagOption t]"
    using old by (simp add: nth_append)
  with f i m show ?case
    by (simp add: pushTag_pushes [OF Cons.prems])
qed

lemma collectTags_reads:
  assumes "\<forall>a\<in>set arr. a < length h"
  shows "\<exists>arr' h'. collectTags ms (arr, h) = (arr', h') \<and> (\<forall>a\<in>set arr'. a < length h') \<and>
           map ((!) h') arr' = map ((!) h) arr @ concat (map (\<lambda>m. map tagOption (tags m)) ms)"
  using assms
proof (induction ms arbitrary: arr h)
  case Nil
  then show ?case by (simp add: collectTags_def)
next
  case (Cons m ms)
  from fold_pushTag [OF Cons.prems, of "tags m"] obtain arr1 h1 where
    f1: "fold pushTag (tags m) (arr, h) = (arr1, h1)" and
    i1: "\<forall>a\<in>set arr1. a < length h1" and
    m1: "map ((!) h1) arr1 = map ((!) h) arr @ map tagOption (tags m)"
    by blast
  from Cons.IH [OF i1] obtain arr' h' where
    f: "collectTags ms (arr1, h1) = (arr', h')" and
    i: "\<forall>a\<in>set arr'. a < length h'" and
    m: "map ((!) h') arr' = map ((!) h1) arr1 @ concat (map (\<lambda>m. map tagOption (tags m)) ms)"
    by blast
  have "collectTags (m # ms) (arr, h) = (arr', h')"
    using f f1 by (simp add: collectTags_def)
  with i m m1 show ?case by simp
qed

lemma tagsFilterOptions_concat:
  "tagsFilterOptions md = concat (map (\<lambda>m. map tagOption (tags m)) md)"
proof -
  from collectTags_reads [of "[]" "[]" md] obtain arr' h' where
    "collectTags md ([], []) = (arr', h')" and
    "map ((!) h') arr' = concat (map (\<lambda>m. map tagOption (tags m)) md)"
    by auto
  then show ?thesis by (simp add: tagsFilterOptions_def)
qed

lemma length_concat_tagOptions:
  "length (concat (map (\<lambda>m. map tagOption (tags m)) md)) =
   sum_list (map (\<lambda>m. length (tags m)) md)"
  by (induction md) auto

lemma count_concat_tagOptions:
  "length (filter (\<lambda>opt. opt_value opt = t) (concat (map (\<lambda>m. map tagOption (tags m)) md))) =
   sum_list (map (\<lambda>m. count_list (tags m) t) md)"
proof (induction md)
  case Nil
  show ?case by simp
next
  case (Cons m md)
  have "length (filter (\<lambda>opt. opt_value opt = t) (map tagOption ts)) = count_list ts t" for ts
    by (induction ts) (auto simp: tagOption_def)
  with Cons show ?case by simp
qed

text \<open>
  C9. \<open>tagsFilterOptions\<close> gives one option per occurrence of a tag in a model of
  \<open>modelData\<close>, in order: the duplicate check never matches. The length of the result is the
  sum of the lengths of the models' \<open>tags\<close>, and the number of options for a tag is the
  number of its occurrences over all models, so a tag that \<open>k\<close> models carry once each
  appears \<open>k\<close> times.
\<close>

theorem tagsFilterOptions_one_per_occurrence:
  "tagsFilterOptions md =
     concat (map (\<lambda>m. map (\<lambda>tag. \<lparr>label = tag, opt_value = tag\<rparr>) (tags m)) md) \<and>
   length (tagsFilterOptions md) = sum_list (map (\<lambda>m. length (tags m)) md) \<and>
   length (filter (\<lambda>opt. opt_value opt = t) (tagsFilterOptions md)) =
     sum_list (map (\<lambda>m. count_list (tags m) t) md)"
proof -
  have "tagOption = (\<lambda>tag. \<lparr>label = tag, opt_value = tag\<rparr>)"
    by (rule ext) (simp add: tagOption_def)
  then have "tagsFilterOptions md =
     concat (map (\<lambda>m. map (\<lambda>tag. \<lparr>label = tag, opt_value = tag\<rparr>) (tags m)) md)"
    using tagsFilterOptions_concat [of md] by simp
  moreover have "length (tagsFilterOptions md) = sum_list (map (\<lambda>m. length (tags m)) md)"
    by (simp only: tagsFilterOptions_concat length_concat_tagOptions)
  moreover have "length (filter (\<lambda>opt. opt_value opt = t) (tagsFilterOptions md)) =
     sum_list (map (\<lambda>m. count_list (tags m) t) md)"
    by (simp only: tagsFilterOptions_concat count_concat_tagOptions)
  ultimately show ?thesis by simp
qed

subsection \<open>What the handlers leave alone\<close>

lemma perform_frame:
  "modelData (perform e s) = modelData s"
  "columnsRef (perform e s) = columnsRef s"
  "pagination (perform e s) = pagination s"
  by (simp_all add: perform_def split: effect.splits ref.splits)

lemma perform_all_frame:
  "modelData (perform_all es s) = modelData s"
  "columnsRef (perform_all es s) = columnsRef s"
  "pagination (perform_all es s) = pagination s"
  unfolding perform_all_def
  by (induction es arbitrary: s) (simp_all add: perform_frame)

lemma step_frame:
  "modelData (step e s) = modelData s"
  "columnsRef (step e s) = columnsRef s"
  "pagination (step e s) = pagination s"
  by (simp_all add: step_def perform_all_frame)

lemma run_frame:
  "modelData (run es s) = modelData s"
  "columnsRef (run es s) = columnsRef s"
  "pagination (run es s) = pagination s"
  unfolding run_def
  by (induction es arbitrary: s) (simp_all add: step_frame)

lemma columnsRef_reachable: "columnsRef (run es (script_setup md tc)) = createColumns2 md tc"
  by (simp add: run_frame script_setup_def)

subsection \<open>The cells the columns render\<close>

lemma custom_cell_tags:
  "custom_cell (createColumns2 md tc) ''tags'' row =
     Some (H NSpace []
             (map (\<lambda>tag.
                     H NTag [(''bordered'', PBool True), (''type'', getTagColor tc tag)]
                       [Text tag])
                (tags row)))"
  by (simp add: custom_cell_def createColumns2_def)

lemma custom_cell_accelerate:
  "custom_cell (createColumns2 md tc) ''accelerate'' row =
     Some (H NButton
             [(''type'', PStr ''primary''), (''secondary'', PBool True),
              (''round'', PBool True), (''block'', PBool True), (''bordered'', PBool False),
              (''onClick'', PHandler [ConsoleLog [''Accelerate'', name row]])]
             [Text ''Accelerate''])"
  by (simp add: custom_cell_def createColumns2_def)

lemma custom_cell_menu:
  "custom_cell (createColumns2 md tc) ''menu'' row =
     Some (H NDropdown
             [(''trigger'', PStr ''hover''), (''options'', POptions (getPluginOptions row))]
             [renderIcon Menu None])"
  by (simp add: custom_cell_def createColumns2_def)

subsection \<open>The table\<close>

text \<open>
  C2. In every state the view has exactly one table node. Its \<open>data\<close> property is the
  imported array \<open>modelData\<close>, element for element, its \<open>remote\<close> property is true, and the
  rows it shows are those of \<open>modelData\<close>, one per record and in order. After any user
  actions on the state the script sets up from an array \<open>md\<close>, these are the rows of \<open>md\<close>.
\<close>

theorem table_data_is_modelData:
  "map (\<lambda>t. (get_prop t ''data'', get_prop t ''remote'', table_rows client t))
     (concat (map (nodes_of NDataTable) (template s))) =
   [(Some (PData (modelData s)), Some (PBool True), modelData s)] \<and>
   map (\<lambda>t. (get_prop t ''data'', get_prop t ''remote'', table_rows client t))
     (concat (map (nodes_of NDataTable) (template (run es (script_setup md tc))))) =
   [(Some (PData md), Some (PBool True), md)]"
proof -
  have n: "concat (map (nodes_of NDataTable) (template s)) = [data_table s]" for s
    by (simp add: template_def install_bar_def custom_model_input_def install_button_def
        progress_card_def progress_steps_def table_card_def data_table_def)
  have a: "get_prop (data_table s) ''data'' = Some (PData (modelData s))" for s
    by (simp add: get_prop_def props_def data_table_def dataRef_def)
  have b: "get_prop (data_table s) ''remote'' = Some (PBool True)" for s
    by (simp add: get_prop_def props_def data_table_def)
  have c: "table_rows client (data_table s) = modelData s" for s
    by (simp add: table_rows_def a b)
  have "modelData (run es (script_setup md tc)) = md"
    by (simp add: run_frame script_setup_def)
  with n a b c show ?thesis by simp
qed

text \<open>
  C3. The claim: the table is configured so that the widget itself applies the column
  sorters and the tags filter to the in-memory data. The code on the two example rows: the
  table's \<open>remote\<close> property is true, so whatever the widget's own processing \<open>client\<close> is,
  the rows shown are the two rows as passed, although the tags filter for \<open>"anime"\<close> keeps
  the first row only; and no handler is bound on the table under any name \<open>k\<close>, so an
  update it emits does nothing.
\<close>

theorem table_remote_skips_filter:
  "get_prop (data_table (script_setup [row_a, row_b] tc)) ''remote'' = Some (PBool True) \<and>
   table_rows client (data_table (script_setup [row_a, row_b] tc)) = [row_a, row_b] \<and>
   filter (tagsFilter ''anime'') [row_a, row_b] = [row_a] \<and>
   event_effects (script_setup [row_a, row_b] tc) (TableUpdate k) = []"
proof -
  let ?s = "script_setup [row_a, row_b] tc"
  have a: "get_prop (data_table ?s) ''data'' = Some (PData [row_a, row_b])"
    by (simp add: get_prop_def props_def data_table_def dataRef_def script_setup_def)
  have b: "get_prop (data_table ?s) ''remote'' = Some (PBool True)"
    by (simp add: get_prop_def props_def data_table_def)
  have c: "table_rows client (data_table ?s) = [row_a, row_b]"
    by (simp add: table_rows_def a b)
  have d: "filter (tagsFilter ''anime'') [row_a, row_b] = [row_a]"
    by (simp add: tagsFilter_def truthy_def toString_def row_a_def row_b_def)
  have e: "event_effects ?s (TableUpdate k) = []"
    by (simp add: event_effects_def handler_effects_def props_def data_table_def)
  from b c d e show ?thesis by simp
qed

subsection \<open>The Accelerate button\<close>

text \<open>
  C4. In a state reached from the script's by any user actions, a click on the Accelerate
  button of a row calls \<open>console.log\<close> once, with \<open>"Accelerate"\<close> and the row's name, and the
  state after the click is the state before it with that line added to the console:
  \<open>customModel\<close>, \<open>columnsRef\<close>, the data, \<open>pagination\<close> and the opened windows are as
  before.
\<close>

theorem accelerate_click_only_logs:
  "event_effects (run es (script_setup md tc)) (ClickAccelerate row) =
     [ConsoleLog [''Accelerate'', name row]] \<and>
   step (ClickAccelerate row) (run es (script_setup md tc)) =
     (run es (script_setup md tc))
       \<lparr>console := console (run es (script_setup md tc)) @ [[''Accelerate'', name row]]\<rparr>"
proof -
  let ?s = "run es (script_setup md tc)"
  have "event_effects ?s (ClickAccelerate row) = [ConsoleLog [''Accelerate'', name row]]"
    by (simp add: event_effects_def columnsRef_reachable custom_cell_accelerate
        handler_effects_def props_def)
  then show ?thesis
    by (simp add: step_def perform_all_def perform_def)
qed

subsection \<open>The progress indicator\<close>

text \<open>
  C5. After any user actions, in any state, the template has one \<open>NSteps\<close> node; its
  \<open>current\<close> is \<open>1\<close> and its steps are titled Start, Convert to ONNX, Convert to TensorRT,
  Package and cleanup, in this order.
\<close>

theorem progress_steps_static:
  "map (\<lambda>st. (get_prop st ''current'', map (\<lambda>c. get_prop c ''title'') (children st)))
     (concat (map (nodes_of NSteps) (template (run es s)))) =
   [(Some (PNum 1),
     [Some (PStr ''Start''), Some (PStr ''Convert to ONNX''),
      Some (PStr ''Convert to TensorRT''), Some (PStr ''Package and cleanup'')])]"
  by (simp add: template_def install_bar_def custom_model_input_def install_button_def
      progress_card_def progress_steps_def table_card_def data_table_def
      get_prop_def props_def children_def)

subsection \<open>The tag cells\<close>

text \<open>
  C6. The cell of the tags column for a row holds one tag node per tag of the row, in
  order; the node's \<open>type\<close> is \<open>tagColor[tag]\<close> and its content is the tag.
\<close>

theorem tag_cells_use_tagColor:
  "map_option (\<lambda>cell. map (\<lambda>c. (get_prop c ''type'', children c)) (children cell))
     (custom_cell (createColumns2 md tagColor) ''tags'' row) =
   Some (map (\<lambda>tag. (Some (tagColor tag), [Text tag])) (tags row))"
  by (simp add: custom_cell_tags children_def get_prop_def props_def getTagColor_def comp_def)

subsection \<open>The imported array\<close>

text \<open>
  Allocation appends to the store, and the two writes of the file go to cells allocated
  after the import: \<open>push\<close> to the array \<open>tags\<close> that \<open>tagsFilterOptions\<close> has just
  allocated, the \<open>v-model\<close> assignment to the cell of \<open>customModel\<close>. So the first \<open>n\<close> cells
  of a store stay as they are, for every \<open>n\<close> up to its size.
\<close>

lemma new_cell_frame:
  "n \<le> length h \<Longrightarrow> take n (snd (new_cell c h)) = take n h \<and> length h \<le> length (snd (new_cell c h))"
  by (simp add: new_cell_def)

lemma push_ref_frame:
  "n \<le> arr \<Longrightarrow> take n (push_ref arr r h) = take n h \<and> length (push_ref arr r h) = length h"
  by (simp add: push_ref_def split: cell.splits)

lemma pushTag_in_frame:
  assumes "n \<le> length h" and "n \<le> tagsA"
  shows "take n (pushTag_in tagsA tag h) = take n h \<and> length h \<le> length (pushTag_in tagsA tag h)"
  using assms by (simp add: pushTag_in_def new_cell_def push_ref_frame)

lemma fold_frame:
  assumes f: "\<And>x h. n \<le> length h \<Longrightarrow> take n (g x h) = take n h \<and> length h \<le> length (g x h)"
    and "n \<le> length h"
  shows "take n (fold g ks h) = take n h \<and> length h \<le> length (fold g ks h)"
  using assms(2)
proof (induction ks arbitrary: h)
  case Nil
  then show ?case by simp
next
  case (Cons k ks)
  from f [OF Cons.prems, of k] have a: "take n (g k h) = take n h" and b: "length h \<le> length (g k h)"
    by simp_all
  from b Cons.prems have "n \<le> length (g k h)" by simp
  from Cons.IH [OF this] a b show ?case by simp
qed

lemma forEach_frame:
  assumes f: "\<And>x h. n \<le> length h \<Longrightarrow> take n (f x h) = take n h \<and> length h \<le> length (f x h)"
    and n: "n \<le> length h"
  shows "take n (forEach arr f h) = take n h \<and> length h \<le> length (forEach arr f h)"
  unfolding forEach_def
  by (rule fold_frame [OF _ n]) (simp add: f)

lemma tagsFilterOptions_in_frame:
  assumes "n \<le> length h"
  shows "take n (snd (tagsFilterOptions_in md h)) = take n h \<and>
         length h \<le> length (snd (tagsFilterOptions_in md h))"
proof -
  let ?h0 = "h @ [ArrayCell []]"
  let ?body = "\<lambda>model. forEach (\<lambda>h'. tags_at h' model) (pushTag_in (length h))"
  have n0: "n \<le> length ?h0" using assms by simp
  have inner: "take n (?body x h') = take n h' \<and> length h' \<le> length (?body x h')"
    if "n \<le> length h'" for x h'
    by (rule forEach_frame [OF _ that]) (rule pushTag_in_frame, simp, rule assms)
  have "take n (forEach (\<lambda>h'. array_at h' md) ?body ?h0) = take n ?h0 \<and>
        length ?h0 \<le> length (forEach (\<lambda>h'. array_at h' md) ?body ?h0)"
    by (rule forEach_frame [OF _ n0]) (rule inner)
  then show ?thesis using assms by (simp add: tagsFilterOptions_in_def new_cell_def)
qed

lemma perform_in_frame:
  assumes "n \<le> customModel_addr m"
  shows "take n (cells (perform_in e m)) = take n (cells m) \<and>
         length (cells (perform_in e m)) = length (cells m) \<and>
         customModel_addr (perform_in e m) = customModel_addr m \<and>
         modelData_addr (perform_in e m) = modelData_addr m"
  using assms by (simp add: perform_in_def assign_ref_def split: effect.splits ref.splits)

lemma fold_perform_in_frame:
  assumes "n \<le> customModel_addr m"
  shows "take n (cells (fold perform_in es m)) = take n (cells m) \<and>
         length (cells (fold perform_in es m)) = length (cells m) \<and>
         customModel_addr (fold perform_in es m) = customModel_addr m \<and>
         modelData_addr (fold perform_in es m) = modelData_addr m"
  using assms
proof (induction es arbitrary: m)
  case Nil
  then show ?case by simp
next
  case (Cons e es)
  from perform_in_frame [OF Cons.prems, of e] have
    a: "take n (cells (perform_in e m)) = take n (cells m)" and
    b: "length (cells (perform_in e m)) = length (cells m)" and
    c: "customModel_addr (perform_in e m) = customModel_addr m" and
    d: "modelData_addr (perform_in e m) = modelData_addr m"
    by simp_all
  from c Cons.prems have "n \<le> customModel_addr (perform_in e m)" by simp
  from Cons.IH [OF this] a b c d show ?case by simp
qed

lemma exec_frame:
  assumes "n \<le> customModel_addr m" and "n \<le> length (cells m)"
  shows "take n (cells (exec tc op m)) = take n (cells m) \<and>
         length (cells m) \<le> length (cells (exec tc op m)) \<and>
         customModel_addr (exec tc op m) = customModel_addr m \<and>
         modelData_addr (exec tc op m) = modelData_addr m"
proof (cases op)
  case BuildColumns
  then show ?thesis
    using tagsFilterOptions_in_frame [OF assms(2), of "modelData_addr m"]
    by (simp add: exec_def)
next
  case (ApplyTagsFilter v r)
  then show ?thesis by (simp add: exec_def tagsFilter_in_def)
next
  case (RenderCell k r)
  then show ?thesis by (simp add: exec_def render_in_def)
next
  case (Act e)
  then show ?thesis
    using fold_perform_in_frame [OF assms(1), of "event_effects (view_of m) e"]
    by (simp add: exec_def)
qed

lemma exec_all_frame:
  assumes "n \<le> customModel_addr m" and "n \<le> length (cells m)"
  shows "take n (cells (exec_all tc ops m)) = take n (cells m) \<and>
         modelData_addr (exec_all tc ops m) = modelData_addr m"
  using assms unfolding exec_all_def
proof (induction ops arbitrary: m)
  case Nil
  then show ?case by simp
next
  case (Cons op ops)
  from exec_frame [OF Cons.prems, of tc op] have
    a: "take n (cells (exec tc op m)) = take n (cells m)" and
    b: "length (cells m) \<le> length (cells (exec tc op m))" and
    c: "customModel_addr (exec tc op m) = customModel_addr m" and
    d: "modelData_addr (exec tc op m) = modelData_addr m"
    by simp_all
  have "n \<le> customModel_addr (exec tc op m)" "n \<le> length (cells (exec tc op m))"
    using b c Cons.prems by simp_all
  from Cons.IH [OF this] a d show ?case by simp
qed

lemma mount_frame:
  "take (length h) (cells (mount md tc h)) = h \<and> length h \<le> length (cells (mount md tc h)) \<and>
   customModel_addr (mount md tc h) = length h \<and> modelData_addr (mount md tc h) = md"
proof -
  have "length h \<le> length (h @ [RefCell ''''])" by simp
  from tagsFilterOptions_in_frame [OF this, of md]
  show ?thesis
    by (auto simp: mount_def new_cell_def split: prod.splits)
qed

lemma store_prefix_kept:
  "take (length h) (cells (exec_all tc ops (mount md tc h))) = h \<and>
   modelData_addr (exec_all tc ops (mount md tc h)) = md"
proof -
  let ?m = "mount md tc h"
  have a: "length h \<le> customModel_addr ?m" and b: "length h \<le> length (cells ?m)"
    using mount_frame [of h md tc] by simp_all
  from exec_all_frame [OF a b, of tc ops] mount_frame [of h md tc] show ?thesis by simp
qed

lemma prefix_reads:
  assumes "take (length h) h' = h"
  shows "a < length h \<Longrightarrow> h' ! a = h ! a" and "a < length h \<Longrightarrow> a < length h'"
proof -
  have l: "length h \<le> length h'"
    by (metis assms length_take min.cobounded2 min.commute)
  show "a < length h \<Longrightarrow> a < length h'" using l by simp
  show "a < length h \<Longrightarrow> h' ! a = h ! a"
    by (metis assms nth_take)
qed

lemma model_at_prefix:
  assumes "take (length h) h' = h" and "model_at h r \<noteq> None"
  shows "model_at h' r = model_at h r"
proof -
  from assms(2) have "r < length h" by (auto simp: model_at_def split: if_splits)
  with prefix_reads [OF assms(1), of r] show ?thesis by (simp add: model_at_def)
qed

lemma array_at_prefix:
  assumes "take (length h) h' = h" and "a < length h"
  shows "array_at h' a = array_at h a"
  using prefix_reads [OF assms(1), of a] assms(2) by (simp add: array_at_def)

lemma models_at_prefix:
  assumes "take (length h) h' = h" and "imported h md"
  shows "array_at h' md = array_at h md" and "models_at h' md = models_at h md"
proof -
  from assms(2) have md: "md < length h"
    and all: "list_all (\<lambda>r. model_at h r \<noteq> None) (array_at h md)"
    by (simp_all add: imported_def)
  show a: "array_at h' md = array_at h md" by (rule array_at_prefix [OF assms(1) md])
  have "List.map_filter (model_at h') rs = List.map_filter (model_at h) rs"
    if "list_all (\<lambda>r. model_at h r \<noteq> None) rs" for rs
    using that
    by (induction rs)
      (auto simp: map_filter_simps model_at_prefix [OF assms(1)] split: option.splits)
  from this [OF all] a show "models_at h' md = models_at h md" by (simp add: models_at_def)
qed

text \<open>
  The loops on the store compute what \<open>tagsFilterOptions\<close> computes on the list of records:
  the arrays they iterate over lie in the part of the store that stays as it is, so every
  element read when its turn comes is the element that was there when the loop started.
\<close>

lemma forEach_stable:
  assumes i: "I h" and arr: "\<And>h'. I h' \<Longrightarrow> arr h' = xs" and f: "\<And>x h'. I h' \<Longrightarrow> I (f x h')"
  shows "forEach arr f h = fold f xs h \<and> I (fold f xs h)"
proof -
  let ?g = "\<lambda>k h'. if k < length (arr h') then f (arr h' ! k) h' else h'"
  have "j \<le> length xs \<Longrightarrow> fold ?g [0..<j] h = fold f (take j xs) h \<and> I (fold f (take j xs) h)" for j
  proof (induction j)
    case 0
    show ?case using i by simp
  next
    case (Suc j)
    then have ih: "fold ?g [0..<j] h = fold f (take j xs) h" and ii: "I (fold f (take j xs) h)"
      and j: "j < length xs" by simp_all
    have t: "take (Suc j) xs = take j xs @ [xs ! j]"
      using j by (simp add: take_Suc_conv_app_nth)
    have "fold ?g [0..<Suc j] h = ?g j (fold f (take j xs) h)"
      using ih by simp
    also have "\<dots> = f (xs ! j) (fold f (take j xs) h)"
      using arr [OF ii] j by simp
    finally have "fold ?g [0..<Suc j] h = fold f (take (Suc j) xs) h"
      using t by simp
    moreover have "I (fold f (take (Suc j) xs) h)"
      using f [OF ii, of "xs ! j"] t by simp
    ultimately show ?case by simp
  qed
  from this [of "length xs"] arr [OF i] show ?thesis by (simp add: forEach_def)
qed

lemma collecting_pushTag:
  assumes "collecting h os h'"
  shows "collecting h (os @ [tagOption tag]) (pushTag_in (length h) tag h')"
proof -
  let ?n = "length h"
  let ?c = "OptionCell \<lparr>label = tag, opt_value = tag\<rparr>"
  from assms obtain arr where
    n: "?n < length h'" and p: "take ?n h' = h" and c: "h' ! ?n = ArrayCell arr" and
    b: "list_all (\<lambda>a. ?n < a \<and> a < length h') arr" and
    m: "map (option_at h') arr = map Some os"
    by (auto simp: collecting_def split: cell.splits)
  have fresh: "length h' \<notin> set arr" using b by (auto simp: list_all_iff)
  have a1: "array_at (h' @ [?c]) ?n = arr"
    using n c by (simp add: array_at_def nth_append)
  let ?h2 = "h' @ [?c, ?c]"
  let ?h3 = "?h2[?n := ArrayCell (arr @ [Suc (length h')])]"
  have r: "pushTag_in ?n tag h' = ?h3"
    using fresh a1 n c
    by (simp add: pushTag_in_def new_cell_def includes_ref_def push_ref_def nth_append)
  have old: "option_at ?h3 a = option_at h' a" if "a \<in> set arr" for a
    using that b n by (auto simp: option_at_def list_all_iff nth_append)
  have new: "option_at ?h3 (Suc (length h')) = Some (tagOption tag)"
    using n by (simp add: option_at_def nth_append tagOption_def)
  have "map (option_at ?h3) arr = map (option_at h') arr"
    by (rule map_cong [OF refl]) (rule old)
  with m have "map (option_at ?h3) arr = map Some os" by simp
  with new have m3: "map (option_at ?h3) (arr @ [Suc (length h')]) = map Some (os @ [tagOption tag])"
    by simp
  have b3: "list_all (\<lambda>a. ?n < a \<and> a < length ?h3) (arr @ [Suc (length h')])"
    using b n by (auto simp: list_all_iff)
  have p3: "take ?n ?h3 = h" using p n by simp
  have c3: "?h3 ! ?n = ArrayCell (arr @ [Suc (length h')])" using n by simp
  show ?thesis
    unfolding r collecting_def using n p3 c3 b3 m3 by simp
qed

lemma collecting_fold_pushTag:
  "collecting h os h' \<Longrightarrow>
   collecting h (os @ map tagOption ts) (fold (pushTag_in (length h)) ts h')"
proof (induction ts arbitrary: os h')
  case Nil
  then show ?case by simp
next
  case (Cons t ts)
  from Cons.IH [OF collecting_pushTag [OF Cons.prems, of t]] show ?case by simp
qed

lemma collecting_prefix: "collecting h os h' \<Longrightarrow> take (length h) h' = h"
  by (simp add: collecting_def)

lemma collecting_model:
  assumes "collecting h os h'" and "model_at h r = Some m"
  shows "collecting h (os @ map tagOption (tags m))
           (forEach (\<lambda>h'. tags_at h' r) (pushTag_in (length h)) h')"
proof -
  let ?I = "\<lambda>h'. \<exists>os. collecting h os h'"
  have i: "?I h'" using assms(1) by blast
  have st: "tags_at h'' r = tags m" if "?I h''" for h''
  proof -
    from that obtain os' where "collecting h os' h''" by blast
    then have "take (length h) h'' = h" by (rule collecting_prefix)
    from model_at_prefix [OF this, of r] assms(2) show ?thesis by (simp add: tags_at_def)
  qed
  have pr: "?I (pushTag_in (length h) x h'')" if "?I h''" for x h''
    using that collecting_pushTag by blast
  from forEach_stable [of ?I h' "\<lambda>h'. tags_at h' r" "tags m" "pushTag_in (length h)", OF i st pr]
  have "forEach (\<lambda>h'. tags_at h' r) (pushTag_in (length h)) h' =
        fold (pushTag_in (length h)) (tags m) h'"
    by simp
  with collecting_fold_pushTag [OF assms(1), of "tags m"] show ?thesis by simp
qed

lemma collecting_models:
  assumes "list_all (\<lambda>r. model_at h r \<noteq> None) rs" and "collecting h os h'"
  shows "collecting h
           (os @ concat (map (\<lambda>m. map tagOption (tags m)) (List.map_filter (model_at h) rs)))
           (fold (\<lambda>r. forEach (\<lambda>h'. tags_at h' r) (pushTag_in (length h))) rs h')"
  using assms
proof (induction rs arbitrary: os h')
  case Nil
  then show ?case by (simp add: map_filter_simps)
next
  case (Cons r rs)
  from Cons.prems(1) obtain m where m: "model_at h r = Some m"
    and rest: "list_all (\<lambda>r. model_at h r \<noteq> None) rs" by auto
  from Cons.IH [OF rest collecting_model [OF Cons.prems(2) m]] m
  show ?case by (simp add: map_filter_simps)
qed

lemma tagsFilterOptions_in_reads:
  assumes "imported h md"
  shows "fst (tagsFilterOptions_in md h) = length h \<and>
         collecting h (tagsFilterOptions (models_at h md)) (snd (tagsFilterOptions_in md h))"
proof -
  let ?h0 = "h @ [ArrayCell []]"
  let ?body = "\<lambda>r. forEach (\<lambda>h'. tags_at h' r) (pushTag_in (length h))"
  let ?I = "\<lambda>h'. length h < length h' \<and> take (length h) h' = h"
  from assms have md: "md < length h"
    and all: "list_all (\<lambda>r. model_at h r \<noteq> None) (array_at h md)"
    by (simp_all add: imported_def)
  have i: "?I ?h0" by simp
  have st: "array_at h' md = array_at h md" if "?I h'" for h'
    by (rule array_at_prefix [OF _ md]) (simp add: that)
  have pr: "?I (?body x h')" if "?I h'" for x h'
  proof -
    have "take (length h) (?body x h') = take (length h) h' \<and> length h' \<le> length (?body x h')"
      by (rule forEach_frame) (rule pushTag_in_frame, simp_all add: that less_imp_le)
    with that show ?thesis by simp
  qed
  from forEach_stable [of ?I ?h0 "\<lambda>h'. array_at h' md" "array_at h md" ?body, OF i st pr]
  have e: "forEach (\<lambda>h'. array_at h' md) ?body ?h0 = fold ?body (array_at h md) ?h0"
    by simp
  have c0: "collecting h [] ?h0" by (simp add: collecting_def)
  from collecting_models [OF all c0]
  have "collecting h (concat (map (\<lambda>m. map tagOption (tags m)) (models_at h md)))
          (fold ?body (array_at h md) ?h0)"
    by (simp add: models_at_def)
  with e show ?thesis
    by (simp add: tagsFilterOptions_in_def new_cell_def tagsFilterOptions_concat)
qed

lemma collecting_options:
  assumes "collecting h os h'"
  shows "options_at h' (length h) = os"
proof -
  from assms obtain arr where
    n: "length h < length h'" and c: "h' ! length h = ArrayCell arr" and
    m: "map (option_at h') arr = map Some os"
    by (auto simp: collecting_def split: cell.splits)
  have "List.map_filter f xs = ys" if "map f xs = map Some ys" for f :: "addr \<Rightarrow> FilterOption option" and xs ys
    using that by (induction xs arbitrary: ys) (auto simp: map_filter_simps)
  from this [OF m] n c show ?thesis by (simp add: options_at_def array_at_def)
qed

lemma tagsFilterOptions_in_refines:
  assumes "imported h md"
  shows "options_at (snd (tagsFilterOptions_in md h)) (fst (tagsFilterOptions_in md h)) =
         tagsFilterOptions (models_at h md)"
proof -
  from tagsFilterOptions_in_reads [OF assms] have
    a: "fst (tagsFilterOptions_in md h) = length h" and
    c: "collecting h (tagsFilterOptions (models_at h md)) (snd (tagsFilterOptions_in md h))"
    by simp_all
  from collecting_options [OF c] a show ?thesis by simp
qed

text \<open>
  The component on the store shows the states of the component: mounting gives the state
  the script sets up, and an operation on the store is the step on the state.
\<close>

lemma assign_ref_reads:
  assumes "holds_ref h a"
  shows "string_at (assign_ref a v h) a = v"
    and "array_at (assign_ref a v h) b = array_at h b"
    and "model_at (assign_ref a v h) b = model_at h b"
    and "holds_ref (assign_ref a v h) a"
  using assms
  by (auto simp: holds_ref_def assign_ref_def string_at_def array_at_def model_at_def
      nth_list_update split: cell.splits)

lemma assign_ref_models:
  assumes "holds_ref h a"
  shows "models_at (assign_ref a v h) b = models_at h b"
proof -
  have "model_at (assign_ref a v h) = model_at h"
    by (rule ext) (rule assign_ref_reads(3) [OF assms])
  then show ?thesis by (simp add: models_at_def assign_ref_reads(2) [OF assms])
qed

lemma perform_in_refines:
  assumes "holds_ref (cells m) (customModel_addr m)"
  shows "view_of (perform_in e m) = perform e (view_of m) \<and>
         holds_ref (cells (perform_in e m)) (customModel_addr (perform_in e m)) \<and>
         columns (perform_in e m) = columns m"
proof (cases e)
  case (ConsoleLog args)
  then show ?thesis using assms by (simp add: perform_in_def perform_def view_of_def)
next
  case (WindowOpen url target)
  then show ?thesis using assms by (simp add: perform_in_def perform_def view_of_def)
next
  case (Assign r v)
  then show ?thesis
    using assign_ref_reads [OF assms] assign_ref_models [OF assms]
    by (cases r) (simp add: perform_in_def perform_def view_of_def)
qed

lemma fold_perform_in_refines:
  assumes "holds_ref (cells m) (customModel_addr m)"
  shows "view_of (fold perform_in es m) = perform_all es (view_of m) \<and>
         holds_ref (cells (fold perform_in es m)) (customModel_addr (fold perform_in es m))"
  using assms unfolding perform_all_def
proof (induction es arbitrary: m)
  case Nil
  then show ?case by simp
next
  case (Cons e es)
  from perform_in_refines [OF Cons.prems, of e] have
    a: "view_of (perform_in e m) = perform e (view_of m)" and
    b: "holds_ref (cells (perform_in e m)) (customModel_addr (perform_in e m))"
    by simp_all
  from Cons.IH [OF b] a show ?case by simp
qed

lemma exec_Act_refines:
  assumes "holds_ref (cells m) (customModel_addr m)"
  shows "view_of (exec tc (Act e) m) = step e (view_of m)"
  using fold_perform_in_refines [OF assms, of "event_effects (view_of m) e"]
  by (simp add: exec_def step_def)

lemma mount_refines:
  assumes "imported h md"
  shows "view_of (mount md tc h) = script_setup (models_at h md) tc"
proof -
  let ?h1 = "h @ [RefCell '''']"
  let ?h2 = "snd (tagsFilterOptions_in md ?h1)"
  have "Suc (length h) \<le> length ?h1" by simp
  from tagsFilterOptions_in_frame [OF this, of md] have
    t: "take (Suc (length h)) ?h2 = ?h1" and l: "length ?h1 \<le> length ?h2"
    by simp_all
  from l have l2: "length h < length ?h2" by simp
  have "?h2 ! length h = take (Suc (length h)) ?h2 ! length h" by simp
  with t have c: "?h2 ! length h = RefCell ''''" by simp
  have s: "string_at ?h2 (length h) = ''''"
    using c l2 by (simp add: string_at_def)
  have "take (length h) (take (Suc (length h)) ?h2) = take (length h) ?h1"
    using t by simp
  then have p2: "take (length h) ?h2 = h" by simp
  have p1: "take (length h) ?h1 = h" by simp
  have m2: "models_at ?h2 md = models_at h md" by (rule models_at_prefix(2) [OF p2 assms])
  have m1: "models_at ?h1 md = models_at h md" by (rule models_at_prefix(2) [OF p1 assms])
  show ?thesis
    using s m1 m2
    by (simp add: view_of_def mount_def new_cell_def script_setup_def case_prod_beta)
qed

lemma string_at_prefix:
  assumes "take (length h) h' = h" and "a < length h"
  shows "string_at h' a = string_at h a"
  using prefix_reads [OF assms(1), of a] assms(2) by (simp add: string_at_def)

lemma exec_BuildColumns_refines:
  assumes "imported (cells m) (modelData_addr m)"
    and "holds_ref (cells m) (customModel_addr m)"
  shows "view_of (exec tc BuildColumns m) =
         (view_of m)\<lparr>columnsRef := createColumns2 (modelData (view_of m)) tc\<rparr>"
proof -
  let ?h = "cells m"
  let ?h' = "snd (tagsFilterOptions_in (modelData_addr m) ?h)"
  from tagsFilterOptions_in_frame [of "length ?h" ?h "modelData_addr m"]
  have p: "take (length ?h) ?h' = ?h" by simp
  from assms(2) have "customModel_addr m < length ?h" by (simp add: holds_ref_def)
  from string_at_prefix [OF p this] models_at_prefix(2) [OF p assms(1)]
  show ?thesis by (simp add: exec_def view_of_def)
qed

lemma exec_reads_refine:
  "view_of (exec tc (ApplyTagsFilter v r) m) = view_of m"
  "view_of (exec tc (RenderCell k r) m) = view_of m"
  by (simp_all add: exec_def view_of_def tagsFilter_in_def render_in_def)

text \<open>
  C7. On a store that holds the import, with the array \<open>modelData\<close> at the address \<open>md\<close>,
  mount the component and run any sequence of the file's operations: building the columns,
  the tags filter on a row, a column's \<open>render\<close> on a row, and the user's actions (typing,
  the clicks on Install and on Accelerate, opening the dropdown and the click on its
  option). Then every cell of the imported store is as it was, the component still refers
  to the array at \<open>md\<close>, the array has the same elements, and the records it holds, and so
  the \<open>modelData\<close> the component shows, are the imported ones: no element is created,
  changed or deleted.
\<close>

theorem modelData_never_written:
  assumes "imported h md"
  shows "take (length h) (cells (exec_all tc ops (mount md tc h))) = h \<and>
         modelData_addr (exec_all tc ops (mount md tc h)) = md \<and>
         array_at (cells (exec_all tc ops (mount md tc h))) md = array_at h md \<and>
         models_at (cells (exec_all tc ops (mount md tc h))) md = models_at h md \<and>
         modelData (view_of (exec_all tc ops (mount md tc h))) = models_at h md"
proof -
  let ?m = "exec_all tc ops (mount md tc h)"
  from store_prefix_kept [of h tc ops md] have p: "take (length h) (cells ?m) = h"
    and a: "modelData_addr ?m = md" by simp_all
  from models_at_prefix [OF p assms] p a show ?thesis by (simp add: view_of_def)
qed

text \<open>
  The theorem on the example store, with every kind of operation in the sequence: the
  store holds the import, and afterwards its three cells and the two records are as
  imported.
\<close>

theorem modelData_never_written_witness:
  "imported example_heap 2 \<and>
   take 3 (cells (exec_all (\<lambda>tag. PUndefined)
      [BuildColumns, ApplyTagsFilter ''anime'' 0, RenderCell ''tags'' 1,
       Act (ClickAccelerate row_a), Act (OpenDropdown row_a),
       Act (ClickOption row_a ''github''), Act (TypeCustomModel ''custom''), Act ClickInstall]
      (mount 2 (\<lambda>tag. PUndefined) example_heap))) = example_heap \<and>
   models_at (cells (exec_all (\<lambda>tag. PUndefined)
      [BuildColumns, ApplyTagsFilter ''anime'' 0, RenderCell ''tags'' 1,
       Act (ClickAccelerate row_a), Act (OpenDropdown row_a),
       Act (ClickOption row_a ''github''), Act (TypeCustomModel ''custom''), Act ClickInstall]
      (mount 2 (\<lambda>tag. PUndefined) example_heap))) 2 = [row_a, row_b]"
proof -
  have i: "imported example_heap 2"
    by (simp add: imported_def example_heap_def array_at_def model_at_def)
  have l: "length example_heap = 3" by (simp add: example_heap_def)
  have m: "models_at example_heap 2 = [row_a, row_b]"
    by (simp add: models_at_def example_heap_def array_at_def model_at_def map_filter_simps)
  from modelData_never_written [OF i, of "\<lambda>tag. PUndefined"
      "[BuildColumns, ApplyTagsFilter ''anime'' 0, RenderCell ''tags'' 1,
       Act (ClickAccelerate row_a), Act (OpenDropdown row_a),
       Act (ClickOption row_a ''github''), Act (TypeCustomModel ''custom''), Act ClickInstall]"]
  show ?thesis using i l m by simp
qed

subsection \<open>The dropdown\<close>

text \<open>
  C8. \<open>getPluginOptions(row)\<close> is a list of one option, labelled Hugging Face, whose click
  handler calls \<open>window.open\<close> with the row's \<open>huggingface_url\<close> and the target \<open>_blank\<close>.
  These are the options of the dropdown in the row's menu cell, and a click on the option
  adds that one call to the opened windows and changes nothing else.
\<close>

theorem getPluginOptions_single_link:
  "map opt_label (getPluginOptions row) = [''Hugging Face''] \<and>
   map (\<lambda>opt. handler_effects (opt_props opt) ''onClick'') (getPluginOptions row) =
     [[WindowOpen (huggingface_url row) ''_blank'']] \<and>
   map_option (\<lambda>m. get_prop m ''options'') (custom_cell (createColumns2 md tc) ''menu'' row) =
     Some (Some (POptions (getPluginOptions row))) \<and>
   step (ClickOption row ''github'') (run es (script_setup md tc)) =
     (run es (script_setup md tc))
       \<lparr>opened := opened (run es (script_setup md tc)) @ [(huggingface_url row, ''_blank'')]\<rparr>"
proof -
  let ?s = "run es (script_setup md tc)"
  have a: "map opt_label (getPluginOptions row) = [''Hugging Face'']"
    by (simp add: getPluginOptions_def)
  have b: "map (\<lambda>opt. handler_effects (opt_props opt) ''onClick'') (getPluginOptions row) =
     [[WindowOpen (huggingface_url row) ''_blank'']]"
    by (simp add: getPluginOptions_def handler_effects_def)
  have c: "map_option (\<lambda>m. get_prop m ''options'')
             (custom_cell (createColumns2 md tc) ''menu'' row) =
           Some (Some (POptions (getPluginOptions row)))"
    by (simp add: custom_cell_menu get_prop_def props_def)
  have "event_effects ?s (ClickOption row ''github'') =
          [WindowOpen (huggingface_url row) ''_blank'']"
    by (simp add: event_effects_def columnsRef_reachable custom_cell_menu option_effects_def
        get_prop_def props_def getPluginOptions_def handler_effects_def)
  then have d: "step (ClickOption row ''github'') ?s =
                  ?s\<lparr>opened := opened ?s @ [(huggingface_url row, ''_blank'')]\<rparr>"
    by (simp add: step_def perform_all_def perform_def)
  from a b c d show ?thesis by simp
qed

subsection \<open>The custom-model input and the Install button\<close>

text \<open>
  C10. \<open>customModel\<close> starts as the empty string. The Install button has no handler under
  any name, and a click on it leaves the whole state as it is. Typing a text into the input
  sets \<open>customModel\<close> to the text and changes nothing else. No user action's effects and no
  part of the template depend on the value of \<open>customModel\<close>.
\<close>

theorem install_button_inert:
  "customModel (script_setup md tc) = '''' \<and>
   handler_effects (props install_button) k = [] \<and>
   step ClickInstall s = s \<and>
   step (TypeCustomModel txt) s = s\<lparr>customModel := txt\<rparr> \<and>
   event_effects (s\<lparr>customModel := c\<rparr>) e = event_effects s e \<and>
   template (s\<lparr>customModel := c\<rparr>) = template s"
proof -
  have a: "handler_effects (props install_button) k = []" for k
    by (simp add: handler_effects_def props_def install_button_def)
  have b: "step ClickInstall s = s"
    by (simp add: step_def event_effects_def a perform_all_def)
  have c: "step (TypeCustomModel txt) s = s\<lparr>customModel := txt\<rparr>"
    by (simp add: step_def event_effects_def input_effects_def props_def custom_model_input_def
        perform_all_def perform_def)
  have d: "event_effects (s\<lparr>customModel := c\<rparr>) e = event_effects s e"
    by (cases e) (simp_all add: event_effects_def data_table_def dataRef_def)
  have e: "template (s\<lparr>customModel := c\<rparr>) = template s"
    by (simp add: template_def table_card_def data_table_def dataRef_def)
  from a b c d e show ?thesis by (simp add: script_setup_def)
qed

end
